theory Spec2Isabelle
  imports Main "HOL-Library.Word"
begin

unbundle bit_operations_syntax

section \<open>BRISK descriptors (FBRISK.cpp)\<close>

text \<open>
  A BRISK descriptor is a \<^verbatim>\<open>std::vector<unsigned char>\<close>. The descriptor length
  \<^verbatim>\<open>FBRISK::L\<close> is a constant of the header FBRISK.h; every function below takes it as
  the parameter \<open>L\<close>. The callers use 48 (\<^verbatim>\<open>changeStructure(descriptors, features.back(), 48)\<close>
  in trainBRISK.cpp, and the comment "BRISK descriptor length is 48 bytes" in loadBRISK.cpp).

  Reading a vector beyond its end is undefined in C++. The model makes it the result
  \<open>None\<close>, so that "the function returns" is a statement one has to prove.
\<close>

type_synonym byte = "8 word"
type_synonym TDescriptor = "byte list"

subsection \<open>FBRISK::meanValue\<close>

text \<open>
  \<^verbatim>\<open>(desc[i] & (0x01<<b)) ? 1 : 0\<close>: the byte is promoted to \<^verbatim>\<open>int\<close> (32 bits), masked
  with \<^verbatim>\<open>1 << b\<close>, and the result tested against zero.
\<close>

definition bit_flag :: "byte \<Rightarrow> nat \<Rightarrow> nat" where
  "bit_flag x b = (if (ucast x :: 32 word) AND push_bit b 1 \<noteq> 0 then 1 else 0)"

text \<open>
  The body of the summing loop for one descriptor: for every byte \<open>i < L\<close> and every bit
  \<open>b < 8\<close>, \<^verbatim>\<open>sum[i*8+b] += ...\<close>. The counters are \<^verbatim>\<open>uint64_t\<close>; each is increased by
  at most one per descriptor, so it stays below \<^verbatim>\<open>descriptors.size()\<close>, a \<^verbatim>\<open>size_t\<close>, and
  never wraps: the model counts in \<open>nat\<close>.
\<close>

definition add_descriptor :: "nat \<Rightarrow> TDescriptor \<Rightarrow> nat list \<Rightarrow> nat list" where
  "add_descriptor L desc sums =
     fold (\<lambda>i. fold (\<lambda>b s. s[i * 8 + b := s ! (i * 8 + b) + bit_flag (desc ! i) b]) [0..<8])
       [0..<L] sums"

text \<open>
  The loop over the descriptors. The vector holds pointers; the model takes the descriptors
  they point to. A descriptor shorter than \<open>L\<close> is read out of range.
\<close>

fun sum_descriptors :: "nat \<Rightarrow> TDescriptor list \<Rightarrow> nat list \<Rightarrow> nat list option" where
  "sum_descriptors L [] sums = Some sums"
| "sum_descriptors L (desc # rest) sums =
     (if length desc < L then None
      else sum_descriptors L rest (add_descriptor L desc sums))"

text \<open>
  The averaging loop: \<^verbatim>\<open>if(sum[i*8+b] > s) mean[i] |= (0x01<<b)\<close>. The byte is
  promoted to \<^verbatim>\<open>int\<close>, or-ed with the mask, and converted back to \<^verbatim>\<open>unsigned char\<close>.
\<close>

definition average :: "nat \<Rightarrow> nat \<Rightarrow> nat list \<Rightarrow> TDescriptor \<Rightarrow> TDescriptor" where
  "average L s sums mean =
     fold (\<lambda>i. fold (\<lambda>b m. if sums ! (i * 8 + b) > s
                            then m[i := ucast ((ucast (m ! i) :: 32 word) OR push_bit b 1)]
                            else m) [0..<8])
       [0..<L] mean"

text \<open>
  \<^verbatim>\<open>mean.resize(0); mean.resize(L, 0)\<close> makes the output \<open>L\<close> zero bytes whatever it held
  before; \<^verbatim>\<open>s = descriptors.size()/2\<close>; \<^verbatim>\<open>sum\<close> (here \<open>sums\<close>) starts as \<open>L*8\<close> zeros.
\<close>

definition meanValue :: "nat \<Rightarrow> TDescriptor list \<Rightarrow> TDescriptor option" where
  "meanValue L descriptors =
     (let mean = replicate L 0;
          s = length descriptors div 2;
          sums = replicate (L * 8) 0
      in case sum_descriptors L descriptors sums of
           None \<Rightarrow> None
         | Some sums' \<Rightarrow> Some (average L s sums' mean))"

text \<open>
  For the statements about \<open>meanValue\<close>: the number of descriptors of a list that have
  bit \<open>b\<close> of byte \<open>i\<close> set.
\<close>

definition votes :: "TDescriptor list \<Rightarrow> nat \<Rightarrow> nat \<Rightarrow> nat" where
  "votes ds i b = length (filter (\<lambda>d. bit (d ! i) b) ds)"

subsection \<open>FBRISK::distance\<close>

text \<open>
  Modelled from the spec: \<^verbatim>\<open>brisk::Hamming::PopcntofXORed(a, b, n)\<close> belongs to the BRISK
  library, which is not among the sources. The spec describes the distance of binary
  descriptors as "Hamming via byte-wise XOR + popcount"; the third argument counts 128-bit
  words, so the function looks at the first \<open>16 * n\<close> bytes behind each pointer. Reading
  behind the end of a descriptor is undefined and is \<open>None\<close> here.
\<close>

definition popcount :: "byte \<Rightarrow> nat" where
  "popcount x = length (filter (bit x) [0..<8])"

definition PopcntofXORed :: "byte list \<Rightarrow> byte list \<Rightarrow> nat \<Rightarrow> nat option" where
  "PopcntofXORed a b n =
     (if length a < 16 * n \<or> length b < 16 * n then None
      else Some (sum_list (map (\<lambda>i. popcount (a ! i XOR b ! i)) [0..<16 * n])))"

text \<open>
  \<^verbatim>\<open>double(PopcntofXORed(&a.front(), &b.front(), L/16))\<close>. \<^verbatim>\<open>front()\<close> of an empty
  vector is undefined. The count is at most \<open>8 * L\<close>, which a \<^verbatim>\<open>double\<close> holds exactly,
  so the returned \<^verbatim>\<open>double\<close> is modelled by the integer it equals.
\<close>

definition distance :: "nat \<Rightarrow> TDescriptor \<Rightarrow> TDescriptor \<Rightarrow> int option" where
  "distance L a b =
     (if a = [] \<or> b = [] then None
      else map_option int (PopcntofXORed a b (L div 16)))"

text \<open>
  For the statements about \<open>distance\<close>: the Hamming distance of two descriptors of \<open>L\<close>
  bytes, as the number of positions (byte \<open>i\<close>, bit \<open>k\<close>) in which they differ.
\<close>

definition hamming :: "nat \<Rightarrow> TDescriptor \<Rightarrow> TDescriptor \<Rightarrow> nat" where
  "hamming L a b =
     length (filter (\<lambda>(i, k). bit (a ! i) k \<noteq> bit (b ! i) k) (List.product [0..<L] [0..<8]))"

subsection \<open>FBRISK::toString and FBRISK::fromString\<close>

text \<open>
  \<^verbatim>\<open>ss << int(a[i])\<close> writes an \<^verbatim>\<open>int\<close> in decimal: the digits, most significant first,
  after a minus sign when the value is negative.
\<close>

function decimal :: "nat \<Rightarrow> string" where
  "decimal n = (if n < 10 then [char_of (48 + n)]
                else decimal (n div 10) @ [char_of (48 + n mod 10)])"
  by pat_completeness auto
termination
  by (relation "measure id") auto

declare decimal.simps [simp del]

definition show_int :: "int \<Rightarrow> string" where
  "show_int v = (if v < 0 then CHR ''-'' # decimal (nat (- v)) else decimal (nat v))"

text \<open>The loop of \<^verbatim>\<open>toString\<close>: each byte as an \<^verbatim>\<open>int\<close>, followed by one space.\<close>

definition toString :: "nat \<Rightarrow> TDescriptor \<Rightarrow> string option" where
  "toString L a =
     (if length a < L then None
      else Some (fold (\<lambda>i ss. ss @ show_int (uint (a ! i)) @ '' '') [0..<L] []))"

text \<open>
  The input side of \<^verbatim>\<open>std::stringstream\<close>: the characters not yet read, and whether the
  stream is still \<^verbatim>\<open>good()\<close> (neither \<^verbatim>\<open>failbit\<close> nor \<^verbatim>\<open>eofbit\<close> set).
\<close>

record istream =
  buf :: string
  good :: bool

definition is_space :: "char \<Rightarrow> bool" where
  "is_space c = (of_char c \<in> {32, 9, 10, 11, 12, 13 :: nat})"

definition is_digit :: "char \<Rightarrow> bool" where
  "is_digit c = (48 \<le> (of_char c :: nat) \<and> (of_char c :: nat) \<le> 57)"

definition digits_value :: "string \<Rightarrow> nat" where
  "digits_value ds = fold (\<lambda>c v. 10 * v + (of_char c - 48)) ds 0"

text \<open>
  \<^verbatim>\<open>ss >> tmp\<close> for an \<^verbatim>\<open>int\<close> (C++11, classic locale, decimal base). The first
  component is the value written to \<^verbatim>\<open>tmp\<close>, \<open>None\<close> when the extraction leaves
  \<^verbatim>\<open>tmp\<close> untouched:
  \<^item> a stream that is not \<^verbatim>\<open>good()\<close> fails in the sentry and writes nothing;
  \<^item> leading white space is skipped; reaching the end while skipping fails in the sentry too;
  \<^item> an optional sign and the longest run of digits are consumed; without a digit the
    extraction fails and writes 0;
  \<^item> a value outside the range of \<^verbatim>\<open>int\<close> fails and writes the nearest bound;
  \<^item> digits that end with the buffer set \<^verbatim>\<open>eofbit\<close>.
\<close>

definition extract_int :: "istream \<Rightarrow> int option \<times> istream" where
  "extract_int ss =
     (if \<not> good ss then (None, ss)
      else
        let r = dropWhile is_space (buf ss) in
        if r = [] then (None, \<lparr>buf = [], good = False\<rparr>)
        else
          let neg = (hd r = CHR ''-'');
              r1 = (if hd r = CHR ''-'' \<or> hd r = CHR ''+'' then tl r else r);
              ds = takeWhile is_digit r1;
              r2 = dropWhile is_digit r1
          in if ds = [] then (Some 0, \<lparr>buf = r1, good = False\<rparr>)
             else
               let v = (if neg then - int (digits_value ds) else int (digits_value ds))
               in if 2147483647 < v then (Some 2147483647, \<lparr>buf = r2, good = False\<rparr>)
                  else if v < - 2147483648 then (Some (- 2147483648), \<lparr>buf = r2, good = False\<rparr>)
                  else (Some v, \<lparr>buf = r2, good = (r2 \<noteq> [])\<rparr>))"

text \<open>
  The loop of \<^verbatim>\<open>fromString\<close>, \<open>n\<close> bytes still to read: \<^verbatim>\<open>int tmp; ss >> tmp;
  a[i] = uint8_t(tmp)\<close>. \<^verbatim>\<open>tmp\<close> is declared without a value, so an extraction that
  writes nothing leaves the byte indeterminate: \<open>None\<close>.
\<close>

fun read_bytes :: "nat \<Rightarrow> istream \<Rightarrow> TDescriptor option" where
  "read_bytes 0 ss = Some []"
| "read_bytes (Suc n) ss =
     (case extract_int ss of
        (None, ss') \<Rightarrow> None
      | (Some tmp, ss') \<Rightarrow> map_option ((#) (word_of_int tmp)) (read_bytes n ss'))"

text \<open>\<^verbatim>\<open>a.resize(L)\<close> and \<open>L\<close> assignments: the result is the \<open>L\<close> bytes read.\<close>

definition fromString :: "nat \<Rightarrow> string \<Rightarrow> TDescriptor option" where
  "fromString L s = read_bytes L \<lparr>buf = s, good = True\<rparr>"

subsection \<open>FBRISK::toMat32F\<close>

text \<open>
  The matrix is a list of rows. Each entry is the \<^verbatim>\<open>int\<close> \<^verbatim>\<open>desc[size_t(j)] & (0x01<<b)\<close>
  converted to \<^verbatim>\<open>float\<close>; the value is 0 or a power of two below 256, which a \<^verbatim>\<open>float\<close>
  holds exactly, so an entry is modelled by that integer.

  The loop over one row: \<^verbatim>\<open>for(int j = 0; j < L*8; j+=8, p+=8)\<close>, with \<open>row\<close> the floats
  written so far (\<open>p\<close> points behind them). The byte read is \<^verbatim>\<open>desc[size_t(j)]\<close>.
\<close>

function toMat32F_row :: "nat \<Rightarrow> TDescriptor \<Rightarrow> nat \<Rightarrow> int list \<Rightarrow> int list option" where
  "toMat32F_row L desc j row =
     (if j < L * 8 then
        (if length desc \<le> j then None
         else toMat32F_row L desc (j + 8)
                (row @ map (\<lambda>b. uint ((ucast (desc ! j) :: 32 word) AND push_bit b 1)) [0..<8]))
      else Some row)"
  by pat_completeness auto
termination
  by (relation "measure (\<lambda>(L, desc, j, row). L * 8 - j)") auto

declare toMat32F_row.simps [simp del]

fun toMat32F_rows :: "nat \<Rightarrow> TDescriptor list \<Rightarrow> int list list option" where
  "toMat32F_rows L [] = Some []"
| "toMat32F_rows L (desc # rest) =
     (case toMat32F_row L desc 0 [] of
        None \<Rightarrow> None
      | Some row \<Rightarrow> map_option ((#) row) (toMat32F_rows L rest))"

text \<open>
  An empty list releases the matrix (no rows); otherwise \<^verbatim>\<open>mat.create(N, L*8, CV_32F)\<close>
  and one row per descriptor.
\<close>

definition toMat32F :: "nat \<Rightarrow> TDescriptor list \<Rightarrow> int list list option" where
  "toMat32F L descriptors = (if descriptors = [] then Some [] else toMat32F_rows L descriptors)"

section \<open>From an OpenCV matrix to a list of descriptors\<close>

text \<open>
  A \<^verbatim>\<open>cv::Mat\<close> of bytes: \<open>rows\<close> and \<open>cols\<close>, the distance \<open>step\<close> in bytes between
  the starts of two consecutive rows, and the buffer \<open>data\<close>. \<^verbatim>\<open>mat.ptr(i)\<close> is
  \<^verbatim>\<open>data + i * step\<close>. The matrix is continuous when \<open>step = cols\<close>.
\<close>

record ByteMat =
  rows :: nat
  cols :: nat
  step :: nat
  data :: "byte list"

definition isContinuous :: "ByteMat \<Rightarrow> bool" where
  "isContinuous mat = (step mat = cols mat \<and> length (data mat) = rows mat * cols mat)"

definition at :: "ByteMat \<Rightarrow> nat \<Rightarrow> nat \<Rightarrow> byte" where
  "at mat r c = data mat ! (r * step mat + c)"

text \<open>
  What the models can do besides returning: a C++ exception (\<open>Thrown\<close> carries the
  \<^verbatim>\<open>std::string\<close> that is thrown, \<open>LengthError\<close> is \<^verbatim>\<open>std::length_error\<close>, \<open>BadAlloc\<close>
  is \<^verbatim>\<open>std::bad_alloc\<close>), or undefined behaviour (an access out of range, an overflow of
  \<^verbatim>\<open>int\<close>).
\<close>

datatype fault = Thrown string | LengthError | BadAlloc | OutOfRange | IntOverflow

text \<open>\<^verbatim>\<open>v.resize(n)\<close> with \<open>d\<close> the value of a new element.\<close>

definition resize :: "nat \<Rightarrow> 'a \<Rightarrow> 'a list \<Rightarrow> 'a list" where
  "resize n d xs = take n xs @ replicate (n - length xs) d"

subsection \<open>changeStructure (trainBRISK.cpp)\<close>

text \<open>
  The loop \<^verbatim>\<open>for(int i = 0; i < mat.rows*mat.cols; i += L, ++j)\<close>. In the body,
  \<^verbatim>\<open>out[j]\<close> needs \<open>j\<close> in range, \<^verbatim>\<open>resize(size_t(L))\<close> of a negative \<open>L\<close> asks for
  more than \<^verbatim>\<open>max_size()\<close> bytes, and \<^verbatim>\<open>std::copy\<close> reads \<open>L\<close> bytes from
  \<^verbatim>\<open>mat.data + i\<close>. Every turn that goes on increases \<open>j\<close> below \<^verbatim>\<open>out.size()\<close> and
  does not decrease \<open>i\<close>, hence the loop ends.
\<close>

function changeStructure_loop ::
  "ByteMat \<Rightarrow> int \<Rightarrow> int \<Rightarrow> nat \<Rightarrow> TDescriptor list \<Rightarrow> fault + TDescriptor list" where
  "changeStructure_loop mat L i j out =
     (if i < int (rows mat * cols mat) then
        (if length out \<le> j then Inl OutOfRange
         else if L < 0 then Inl LengthError
         else if int (length (data mat)) < i + L then Inl OutOfRange
         else if 2147483647 < i + L then Inl IntOverflow
         else changeStructure_loop mat L (i + L) (Suc j)
                (out[j := take (nat L) (drop (nat i) (data mat))]))
      else Inr out)"
  by pat_completeness auto
termination
  by (relation "measure (\<lambda>(mat, L, i, j, out). nat (int (rows mat * cols mat) - i) + (length out - j))")
     auto

declare changeStructure_loop.simps [simp del]

text \<open>
  \<^verbatim>\<open>out.resize(size_t(mat.rows))\<close> keeps what \<open>out\<close> held and fills up with empty
  vectors. The product \<^verbatim>\<open>mat.rows*mat.cols\<close> is computed in \<^verbatim>\<open>int\<close>.
\<close>

definition changeStructure :: "ByteMat \<Rightarrow> int \<Rightarrow> TDescriptor list \<Rightarrow> fault + TDescriptor list" where
  "changeStructure mat L out =
     (if 2147483647 < rows mat * cols mat then Inl IntOverflow
      else changeStructure_loop mat L 0 0 (resize (rows mat) [] out))"

subsection \<open>changeStructureBRISK (loadBRISK.cpp)\<close>

text \<open>
  Row \<open>i\<close>: \<^verbatim>\<open>out[i].resize(FBRISK::L)\<close>, then \<^verbatim>\<open>out[i][j] = desc_data[j]\<close> for
  \<open>j < L\<close>, with \<^verbatim>\<open>desc_data = plain.ptr<unsigned char>(i)\<close>.
\<close>

definition copy_row :: "nat \<Rightarrow> ByteMat \<Rightarrow> nat \<Rightarrow> TDescriptor \<Rightarrow> fault + TDescriptor" where
  "copy_row L plain i d =
     fold (\<lambda>j r. case r of
                    Inl e \<Rightarrow> Inl e
                  | Inr d' \<Rightarrow> if length (data plain) \<le> i * step plain + j then Inl OutOfRange
                              else Inr (d'[j := data plain ! (i * step plain + j)]))
       [0..<L] (Inr (resize L 0 d))"

definition changeStructureBRISK :: "nat \<Rightarrow> ByteMat \<Rightarrow> TDescriptor list \<Rightarrow> fault + TDescriptor list" where
  "changeStructureBRISK L plain out =
     fold (\<lambda>i r. case r of
                    Inl e \<Rightarrow> Inl e
                  | Inr out' \<Rightarrow> (case copy_row L plain i (out' ! i) of
                                   Inl e \<Rightarrow> Inl e
                                 | Inr d \<Rightarrow> Inr (out'[i := d])))
       [0..<rows plain] (Inr (resize (rows plain) [] out))"

section \<open>FastVocabularyLoader::load\<close>

text \<open>
  The persisted vocabulary as \<^verbatim>\<open>cv::FileStorage\<close> presents it. A node record holds the
  integers \<open>nodeId\<close> and \<open>parentId\<close>, which the loader converts to \<^verbatim>\<open>NodeId\<close>
  (\<^verbatim>\<open>unsigned int\<close>), a weight (a \<^verbatim>\<open>double\<close> that the loader only stores, hence the type
  parameter) and the descriptor string. A file is a map from top-level keys to nodes; a file
  system maps a name to a file, \<open>None\<close> when \<^verbatim>\<open>fs.isOpened()\<close> is false.
\<close>

type_synonym NodeId = "32 word"
type_synonym WordId = "32 word"

record 'w NodeRecord =
  nodeId :: NodeId
  parentId :: NodeId
  weight :: 'w
  descriptor :: string

record WordRecord =
  wordId :: WordId
  word_nodeId :: NodeId

record 'w VocabularyNode =
  voc_k :: int
  voc_L :: int
  scoringType :: int
  weightingType :: int
  nodes :: "'w NodeRecord list"
  words :: "WordRecord list"

type_synonym 'w FileStorage = "string \<Rightarrow> 'w VocabularyNode option"

text \<open>\<^verbatim>\<open>struct NodeData { NodeId id; NodeId parent; WordValue weight; std::string descriptor_str; }\<close>\<close>

record 'w NodeData =
  node_id :: NodeId
  parent :: NodeId
  node_weight :: 'w
  descriptor_str :: string

definition empty_NodeData :: "('w::zero) NodeData" where
  "empty_NodeData = \<lparr>node_id = 0, parent = 0, node_weight = 0, descriptor_str = []\<rparr>"

text \<open>
  The body of the loop over the node list: \<^verbatim>\<open>if(nid >= node_data.size())
  node_data.resize(nid + 1); node_data[nid] = {nid, pid, weight, descriptor};\<close>.
  \<^verbatim>\<open>nid + 1\<close> is computed in \<^verbatim>\<open>unsigned int\<close> and wraps. A \<^verbatim>\<open>resize\<close> that makes the
  vector longer needs memory, which the program may not get: \<open>grants n\<close> says whether the
  allocator provides the node vector with room for \<open>n\<close> elements; without it
  \<^verbatim>\<open>resize\<close> throws \<^verbatim>\<open>std::bad_alloc\<close>. The node id of a record chooses \<open>n\<close>, whatever the
  size of the file.
\<close>

definition store_node ::
  "(nat \<Rightarrow> bool) \<Rightarrow> ('w::zero) NodeData list \<Rightarrow> 'w NodeRecord \<Rightarrow> fault + 'w NodeData list" where
  "store_node grants node_data r =
     (let nid = nodeId r; pid = parentId r in
      if length node_data \<le> unat nid then
        (let n = unat (nid + 1) in
         if length node_data < n \<and> \<not> grants n then Inl BadAlloc
         else
           (let node_data' = resize n empty_NodeData node_data in
            if length node_data' \<le> unat nid then Inl OutOfRange
            else Inr (node_data'[unat nid := \<lparr>node_id = nid, parent = pid, node_weight = weight r,
                                               descriptor_str = descriptor r\<rparr>])))
      else Inr (node_data[unat nid := \<lparr>node_id = nid, parent = pid, node_weight = weight r,
                                        descriptor_str = descriptor r\<rparr>]))"

text \<open>
  A record can be stored when its node id is not the largest \<^verbatim>\<open>unsigned int\<close> and the
  allocator grants room for the elements up to that id.
\<close>

definition storable :: "(nat \<Rightarrow> bool) \<Rightarrow> 'w NodeRecord \<Rightarrow> bool" where
  "storable grants r = (nodeId r \<noteq> - 1 \<and> grants (Suc (unat (nodeId r))))"

text \<open>
  The loop \<^verbatim>\<open>for(it = fn_nodes.begin(); it != fn_nodes.end(); ++it, ++count)\<close>. The
  iterator \<open>it\<close> is a position in the node list, from 0 to its length (the end), and
  \<^verbatim>\<open>*it\<close> is the record at that position. \<open>reads\<close> lists the positions whose record the
  loop has read so far, in the order of the reads; it is returned with the result, also
  when the loop fails. The progress messages on standard output are left out.
\<close>

function load_nodes ::
  "(nat \<Rightarrow> bool) \<Rightarrow> 'w NodeRecord list \<Rightarrow> nat \<Rightarrow> nat \<Rightarrow> nat list \<Rightarrow> ('w::zero) NodeData list \<Rightarrow>
     nat list \<times> (fault + (nat \<times> 'w NodeData list))" where
  "load_nodes grants fn_nodes it count reads node_data =
     (if it < length fn_nodes then
        (case store_node grants node_data (fn_nodes ! it) of
           Inl e \<Rightarrow> (reads @ [it], Inl e)
         | Inr node_data' \<Rightarrow>
             load_nodes grants fn_nodes (Suc it) (Suc count) (reads @ [it]) node_data')
      else (reads, Inr (count, node_data)))"
  by pat_completeness auto
termination
  by (relation "measure (\<lambda>(grants, fn_nodes, it, count, reads, node_data). length fn_nodes - it)")
     auto

declare load_nodes.simps [simp del]

text \<open>
  The loop over the word list, with its iterator and its reads in the same way:
  \<^verbatim>\<open>word_data.push_back({wid, nid})\<close>.
\<close>

function load_words ::
  "WordRecord list \<Rightarrow> nat \<Rightarrow> nat \<Rightarrow> nat list \<Rightarrow> (WordId \<times> NodeId) list \<Rightarrow>
     nat list \<times> nat \<times> (WordId \<times> NodeId) list" where
  "load_words fn_words it count reads word_data =
     (if it < length fn_words then
        load_words fn_words (Suc it) (Suc count) (reads @ [it])
          (word_data @ [(wordId (fn_words ! it), word_nodeId (fn_words ! it))])
      else (reads, count, word_data))"
  by pat_completeness auto
termination
  by (relation "measure (\<lambda>(fn_words, it, count, reads, word_data). length fn_words - it)") auto

declare load_words.simps [simp del]

text \<open>
  What \<^verbatim>\<open>load\<close> has read of the two lists, and what it has built when it returns: the
  two local vectors, and the number of turns of each loop.
\<close>

record read_log =
  nodes_read :: "nat list"
  words_read :: "nat list"

record 'w Loaded =
  final_node_data :: "'w NodeData list"
  nodes_visited :: nat
  final_word_data :: "(WordId \<times> NodeId) list"
  words_visited :: nat

text \<open>
  \<^verbatim>\<open>load\<close> itself. The two \<^verbatim>\<open>throw\<close> statements come before anything is read of the
  lists. \<^verbatim>\<open>node_data.reserve(num_nodes + 1)\<close> asks for memory as \<^verbatim>\<open>resize\<close> does; then
  the root is pushed. The vector of the words and the strings take memory in proportion
  to the file, which \<^verbatim>\<open>cv::FileStorage\<close> already holds; their allocations are not modelled.
\<close>

definition load ::
  "(nat \<Rightarrow> bool) \<Rightarrow> (string \<Rightarrow> ('w::zero) FileStorage option) \<Rightarrow> string \<Rightarrow>
     read_log \<times> (fault + 'w Loaded)" where
  "load grants files filename =
     (case files filename of
        None \<Rightarrow> (\<lparr>nodes_read = [], words_read = []\<rparr>,
                 Inl (Thrown (''Could not open file '' @ filename)))
      | Some fs \<Rightarrow>
          (case fs ''vocabulary'' of
             None \<Rightarrow> (\<lparr>nodes_read = [], words_read = []\<rparr>,
                      Inl (Thrown ''File does not contain 'vocabulary' node''))
           | Some fvoc \<Rightarrow>
               if \<not> grants (length (nodes fvoc) + 1)
               then (\<lparr>nodes_read = [], words_read = []\<rparr>, Inl BadAlloc)
               else
                 (case load_nodes grants (nodes fvoc) 0 0 [] [empty_NodeData] of
                    (nreads, Inl e) \<Rightarrow> (\<lparr>nodes_read = nreads, words_read = []\<rparr>, Inl e)
                  | (nreads, Inr (count, node_data)) \<Rightarrow>
                      (case load_words (words fvoc) 0 0 [] [] of
                         (wreads, count', word_data) \<Rightarrow>
                           (\<lparr>nodes_read = nreads, words_read = wreads\<rparr>,
                            Inr \<lparr>final_node_data = node_data, nodes_visited = count,
                                 final_word_data = word_data, words_visited = count'\<rparr>)))))"

section \<open>The vocabulary tree and its persistence\<close>

text \<open>
  \<^verbatim>\<open>TemplatedVocabulary\<close> (its \<^verbatim>\<open>create\<close>, \<^verbatim>\<open>transform\<close>, \<^verbatim>\<open>save\<close> and \<^verbatim>\<open>load\<close>) is
  not among the sources; trainBRISK.cpp and loadBRISK.cpp only call it. Everything in this
  section is modelled from the spec, with binary descriptors of \<open>DL\<close> bytes (the \<open>L\<close> of
  \<^verbatim>\<open>FBRISK\<close>), their \<open>distance\<close> and their string form as modelled above.
\<close>

text \<open>
  Modelled from the spec: the node of TemplatedVocabulary. "A tree node has: a unique NodeId
  (u32; 0 = root, sentinel for none); a parent; children (ordered list of NodeIds, empty at
  leaves); a representative descriptor; a weight; and a word_id (valid only at leaves)."
\<close>

record 'w Node =
  n_id :: NodeId
  n_parent :: NodeId
  n_children :: "NodeId list"
  n_descriptor :: TDescriptor
  n_weight :: 'w
  n_word_id :: WordId

text \<open>
  Modelled from the spec: the vocabulary of TemplatedVocabulary, with its four parameters,
  the nodes "in a flat array indexed by NodeId", and the words as the node id of each word
  id.
\<close>

record 'w Vocabulary =
  v_k :: int
  v_L :: int
  v_scoring :: int
  v_weighting :: int
  v_nodes :: "'w Node list"
  v_words :: "NodeId list"

text \<open>
  Modelled from the spec: the choice of a child in TemplatedVocabulary's quantization.
  "At each node choose the child whose descriptor minimizes the distance to desc (ties:
  lowest child index)." A child id outside the node array, or a distance that is not
  defined, is \<open>None\<close>.
\<close>

definition child_distance ::
  "nat \<Rightarrow> 'w Node list \<Rightarrow> TDescriptor \<Rightarrow> NodeId \<Rightarrow> (NodeId \<times> int) option" where
  "child_distance DL ns desc c =
     (if length ns \<le> unat c then None
      else map_option (Pair c) (distance DL (n_descriptor (ns ! unat c)) desc))"

fun nearest :: "(NodeId \<times> int) \<Rightarrow> (NodeId \<times> int) list \<Rightarrow> NodeId" where
  "nearest best [] = fst best"
| "nearest best (cand # rest) = nearest (if snd cand < snd best then cand else best) rest"

definition best_child :: "nat \<Rightarrow> 'w Node list \<Rightarrow> TDescriptor \<Rightarrow> NodeId list \<Rightarrow> NodeId option" where
  "best_child DL ns desc children =
     (case those (map (child_distance DL ns desc) children) of
        None \<Rightarrow> None
      | Some [] \<Rightarrow> None
      | Some (first # rest) \<Rightarrow> Some (nearest first rest))"

text \<open>
  Modelled from the spec: transform_one of TemplatedVocabulary. "Starting at the root ...
  descend until a leaf. Return the leaf's WordId, its weight". The descent visits no node
  twice in a tree, so as many steps as there are nodes suffice; running out of them (the
  nodes are no tree) is \<open>None\<close>.
\<close>

fun descend ::
  "nat \<Rightarrow> 'w Node list \<Rightarrow> nat \<Rightarrow> NodeId \<Rightarrow> TDescriptor \<Rightarrow> (WordId \<times> 'w) option" where
  "descend DL ns 0 nid desc = None"
| "descend DL ns (Suc fuel) nid desc =
     (if length ns \<le> unat nid then None
      else if n_children (ns ! unat nid) = []
           then Some (n_word_id (ns ! unat nid), n_weight (ns ! unat nid))
           else (case best_child DL ns desc (n_children (ns ! unat nid)) of
                   None \<Rightarrow> None
                 | Some c \<Rightarrow> descend DL ns fuel c desc))"

definition transform_one :: "nat \<Rightarrow> 'w Vocabulary \<Rightarrow> TDescriptor \<Rightarrow> (WordId \<times> 'w) option" where
  "transform_one DL V desc = descend DL (v_nodes V) (length (v_nodes V)) 0 desc"

text \<open>
  Modelled from the spec: save of TemplatedVocabulary. The "vocabulary serializes its
  parameters, the node array (id, parent, weight, descriptor string), and the
  word-id/node-id map", in the layout \<open>VocabularyNode\<close> above, preserving "node order and
  ids exactly". The root is not written: FastVocabularyLoader::load creates it itself
  (\<^verbatim>\<open>node_data.push_back({0, 0, 0.0, ""})\<close>) before it reads the node list.
\<close>

definition save_node :: "nat \<Rightarrow> 'w Node \<Rightarrow> 'w NodeRecord option" where
  "save_node DL n =
     map_option (\<lambda>s. \<lparr>nodeId = n_id n, parentId = n_parent n, weight = n_weight n, descriptor = s\<rparr>)
       (toString DL (n_descriptor n))"

definition save :: "nat \<Rightarrow> 'w Vocabulary \<Rightarrow> 'w VocabularyNode option" where
  "save DL V =
     (case those (map (save_node DL) (tl (v_nodes V))) of
        None \<Rightarrow> None
      | Some recs \<Rightarrow>
          Some \<lparr>voc_k = v_k V, voc_L = v_L V, scoringType = v_scoring V,
                weightingType = v_weighting V, nodes = recs,
                words = map (\<lambda>w. \<lparr>wordId = of_nat w, word_nodeId = v_words V ! w\<rparr>)
                          [0..<length (v_words V)]\<rparr>)"

text \<open>
  Modelled from the spec: load of TemplatedVocabulary. Neither the children of a node nor
  its word id are persisted. The children of node \<open>i\<close> are the persisted nodes whose parent
  is \<open>i\<close>, in their order; its word id is that of the word record naming it, 0 without
  one. Record number \<open>i\<close> of the node list must carry the node id \<open>i + 1\<close> and record
  number \<open>w\<close> of the word list the word id \<open>w\<close>; anything else is malformed data
  (SerializationError), \<open>None\<close>.
\<close>

definition children_of :: "'w NodeRecord list \<Rightarrow> NodeId \<Rightarrow> NodeId list" where
  "children_of recs i = map nodeId (filter (\<lambda>r. parentId r = i) recs)"

definition word_of :: "WordRecord list \<Rightarrow> NodeId \<Rightarrow> WordId" where
  "word_of wrecs i =
     (case find (\<lambda>w. word_nodeId w = i) wrecs of None \<Rightarrow> 0 | Some w \<Rightarrow> wordId w)"

definition load_node ::
  "nat \<Rightarrow> 'w NodeRecord list \<Rightarrow> WordRecord list \<Rightarrow> nat \<Rightarrow> 'w Node option" where
  "load_node DL recs wrecs i =
     (let r = recs ! i in
      if nodeId r \<noteq> of_nat (Suc i) then None
      else map_option
             (\<lambda>d. \<lparr>n_id = nodeId r, n_parent = parentId r, n_children = children_of recs (nodeId r),
                    n_descriptor = d, n_weight = weight r, n_word_id = word_of wrecs (nodeId r)\<rparr>)
             (fromString DL (descriptor r)))"

definition load_word :: "WordRecord list \<Rightarrow> nat \<Rightarrow> NodeId option" where
  "load_word wrecs w =
     (if wordId (wrecs ! w) \<noteq> of_nat w then None else Some (word_nodeId (wrecs ! w)))"

definition load_vocabulary :: "nat \<Rightarrow> ('w::zero) VocabularyNode \<Rightarrow> 'w Vocabulary option" where
  "load_vocabulary DL fvoc =
     (case those (map (load_node DL (nodes fvoc) (words fvoc)) [0..<length (nodes fvoc)]) of
        None \<Rightarrow> None
      | Some ns \<Rightarrow>
          (case those (map (load_word (words fvoc)) [0..<length (words fvoc)]) of
             None \<Rightarrow> None
           | Some ws \<Rightarrow>
               Some \<lparr>v_k = voc_k fvoc, v_L = voc_L fvoc, v_scoring = scoringType fvoc,
                     v_weighting = weightingType fvoc,
                     v_nodes = \<lparr>n_id = 0, n_parent = 0, n_children = children_of (nodes fvoc) 0,
                                 n_descriptor = [], n_weight = 0,
                                 n_word_id = word_of (words fvoc) 0\<rparr> # ns,
                     v_words = ws\<rparr>))"

text \<open>
  Modelled from the spec: what \<^verbatim>\<open>create\<close> of TemplatedVocabulary guarantees, as far as
  persistence needs it. The node ids are the indices of the array, which has room for them
  in a u32; the root has no parent (the sentinel 0), no descriptor and weight 0; every
  other node has a descriptor of \<open>DL\<close> bytes; the children of a node are the nodes whose
  parent it is, in the order of their ids; a node named by the word list has the word id
  under which it is named, every other node the word id 0; the word ids fit in a u32.
\<close>

definition wf_vocabulary :: "nat \<Rightarrow> ('w::zero) Vocabulary \<Rightarrow> bool" where
  "wf_vocabulary DL V =
     (let ns = v_nodes V; ws = v_words V in
      ns \<noteq> [] \<and> length ns \<le> 2 ^ 32 \<and> length ws \<le> 2 ^ 32 \<and>
      n_parent (ns ! 0) = 0 \<and> n_descriptor (ns ! 0) = [] \<and> n_weight (ns ! 0) = 0 \<and>
      list_all (\<lambda>i. n_id (ns ! i) = of_nat i \<and>
                    n_children (ns ! i) =
                      map n_id (filter (\<lambda>n. n_parent n = of_nat i) (tl ns)) \<and>
                    n_word_id (ns ! i) =
                      (case find (\<lambda>w. ws ! w = of_nat i) [0..<length ws] of
                         None \<Rightarrow> 0 | Some w \<Rightarrow> of_nat w))
        [0..<length ns] \<and>
      list_all (\<lambda>n. length (n_descriptor n) = DL) (tl ns))"

section \<open>Properties of the BRISK descriptor functions\<close>

subsection \<open>The majority vote of meanValue\<close>


lemma byte_bit_lt8: "bit (x::byte) c \<Longrightarrow> c < 8"
  by (drule bit_imp_le_length) simp

lemma bit_flag_eq: "b < 8 \<Longrightarrow> bit_flag x b = (if bit x b then 1 else 0)"
proof -
  assume b: "b < 8"
  have "((ucast x :: 32 word) AND push_bit b 1 = 0) \<longleftrightarrow> \<not> bit x b"
  proof
    assume "(ucast x :: 32 word) AND push_bit b 1 = 0"
    then have "\<not> bit ((ucast x :: 32 word) AND push_bit b 1) b" by simp
    with b show "\<not> bit x b" by (simp add: bit_simps)
  next
    assume "\<not> bit x b"
    then show "(ucast x :: 32 word) AND push_bit b 1 = 0"
      by (intro bit_eqI) (auto simp: bit_simps)
  qed
  then show ?thesis by (simp add: bit_flag_def)
qed

lemma or_mask_bit: "bit (ucast ((ucast (x::byte) :: 32 word) OR push_bit b 1) :: byte) c \<longleftrightarrow> bit x c \<or> (c = b \<and> b < 8)"
  by (auto simp: bit_simps dest: byte_bit_lt8)


lemma length_inner_sum:
  "length (fold (\<lambda>b s. s[i * 8 + b := s ! (i * 8 + b) + g b]) [0..<n] s) = length s"
  by (induction n) simp_all

lemma inner_sum_nth:
  assumes "i * 8 + n \<le> length s" "k < length s"
  shows "fold (\<lambda>b s. s[i * 8 + b := s ! (i * 8 + b) + g b]) [0..<n] s ! k =
         (if i * 8 \<le> k \<and> k < i * 8 + n then s ! k + g (k - i * 8) else s ! k)"
  using assms
proof (induction n arbitrary: k)
  case 0
  then show ?case by auto
next
  case (Suc n)
  then have IH: "fold (\<lambda>b s. s[i * 8 + b := s ! (i * 8 + b) + g b]) [0..<n] s ! j =
         (if i * 8 \<le> j \<and> j < i * 8 + n then s ! j + g (j - i * 8) else s ! j)"
    if "j < length s" for j
    using that by simp
  from Suc.prems have "i * 8 + n < length s" by simp
  with Suc.prems IH show ?case
    by (cases "k = i * 8 + n") (simp_all add: length_inner_sum nth_list_update)
qed

lemma length_outer_sum:
  "length (fold (\<lambda>i. fold (\<lambda>b s. s[i * 8 + b := s ! (i * 8 + b) + g i b]) [0..<8]) [0..<m] s) = length s"
  by (induction m) (simp_all add: length_inner_sum)

lemma byte_index_div_mod:
  assumes "m * 8 \<le> k" "k < m * 8 + (8::nat)"
  shows "k div 8 = m" "k mod 8 = k - m * 8"
proof -
  from assms show "k div 8 = m" by (intro div_nat_eqI) (simp_all add: mult.commute)
  then show "k mod 8 = k - m * 8" by (simp add: modulo_nat_def mult.commute)
qed

lemma outer_sum_nth:
  assumes "m * 8 \<le> length s" "k < length s"
  shows "fold (\<lambda>i. fold (\<lambda>b s. s[i * 8 + b := s ! (i * 8 + b) + g i b]) [0..<8]) [0..<m] s ! k =
         (if k < m * 8 then s ! k + g (k div 8) (k mod 8) else s ! k)"
  using assms
proof (induction m arbitrary: k)
  case 0
  then show ?case by simp
next
  case (Suc m)
  let ?f = "fold (\<lambda>i. fold (\<lambda>b s. s[i * 8 + b := s ! (i * 8 + b) + g i b]) [0..<8]) [0..<m] s"
  have len: "length ?f = length s" by (rule length_outer_sum)
  from Suc.prems have m: "m * 8 + 8 \<le> length ?f" and k: "k < length ?f"
    by (simp_all add: len)
  from Suc.prems have IH: "?f ! k = (if k < m * 8 then s ! k + g (k div 8) (k mod 8) else s ! k)"
    by (intro Suc.IH) simp_all
  have step: "fold (\<lambda>b s. s[m * 8 + b := s ! (m * 8 + b) + g m b]) [0..<8] ?f ! k =
      (if m * 8 \<le> k \<and> k < m * 8 + 8 then ?f ! k + g m (k - m * 8) else ?f ! k)"
    using m k by (rule inner_sum_nth)
  consider "k < m * 8" | "m * 8 \<le> k" "k < m * 8 + 8" | "m * 8 + 8 \<le> k"
    by linarith
  then show ?case
  proof cases
    case 1
    with IH step show ?thesis by simp
  next
    case 2
    with IH step byte_index_div_mod [OF 2] show ?thesis by simp
  next
    case 3
    with IH step show ?thesis by simp
  qed
qed

lemma or_exp_bit: "bit (ucast ((ucast (x::byte) :: 32 word) OR 2 ^ b) :: byte) c \<longleftrightarrow> bit x c \<or> (c = b \<and> b < 8)"
  using or_mask_bit [of x b c] by simp

lemma length_add_descriptor: "length (add_descriptor L desc s) = length s"
  by (simp add: add_descriptor_def length_outer_sum)

lemma add_descriptor_nth:
  assumes "length s = L * 8" "k < L * 8"
  shows "add_descriptor L desc s ! k = s ! k + (if bit (desc ! (k div 8)) (k mod 8) then 1 else 0)"
  using assms by (simp add: add_descriptor_def outer_sum_nth bit_flag_eq)

lemma sum_descriptors_Some:
  assumes "\<forall>d \<in> set ds. L \<le> length d" "length s = L * 8"
  shows "\<exists>s'. sum_descriptors L ds s = Some s' \<and> length s' = L * 8 \<and>
           (\<forall>k < L * 8. s' ! k = s ! k + votes ds (k div 8) (k mod 8))"
  using assms
proof (induction ds arbitrary: s)
  case Nil
  then show ?case by (simp add: votes_def)
next
  case (Cons d ds)
  let ?s = "add_descriptor L d s"
  have len: "length ?s = L * 8" using Cons.prems by (simp add: length_add_descriptor)
  from Cons.prems have "\<forall>d \<in> set ds. L \<le> length d" by simp
  from Cons.IH [OF this len] obtain s' where
    s': "sum_descriptors L ds ?s = Some s'" "length s' = L * 8"
        "\<forall>k < L * 8. s' ! k = ?s ! k + votes ds (k div 8) (k mod 8)"
    by blast
  have "s' ! k = s ! k + votes (d # ds) (k div 8) (k mod 8)" if "k < L * 8" for k
    using that s'(3) Cons.prems(2) by (simp add: add_descriptor_nth votes_def)
  with s' Cons.prems show ?case by simp
qed

lemma length_inner_avg:
  "length (fold (\<lambda>b m. if P b then m[i := ucast ((ucast (m ! i) :: 32 word) OR push_bit b 1)]
                            else m) [0..<n] (m::TDescriptor)) = length m"
  by (induction n) simp_all

lemma inner_avg_other:
  "j \<noteq> i \<Longrightarrow> fold (\<lambda>b m. if P b then m[i := ucast ((ucast (m ! i) :: 32 word) OR push_bit b 1)]
                            else m) [0..<n] (m::TDescriptor) ! j = m ! j"
  by (induction n) simp_all

lemma inner_avg_bit:
  assumes "i < length m" "n \<le> 8"
  shows "bit (fold (\<lambda>b m. if P b then m[i := ucast ((ucast (m ! i) :: 32 word) OR push_bit b 1)]
                            else m) [0..<n] (m::TDescriptor) ! i) c \<longleftrightarrow> bit (m ! i) c \<or> (c < n \<and> P c)"
  using assms
proof (induction n)
  case 0
  then show ?case by simp
next
  case (Suc n)
  then show ?case
    by (auto simp: length_inner_avg or_mask_bit or_exp_bit less_Suc_eq)
qed

lemma length_average: "length (average L s sums m) = length m"
  unfolding average_def by (induction L) (simp_all add: length_inner_avg)

lemma outer_avg_bit:
  assumes "i < length m"
  shows "bit (fold (\<lambda>i. fold (\<lambda>b m. if P i b then m[i := ucast ((ucast (m ! i) :: 32 word) OR push_bit b 1)]
                            else m) [0..<8]) [0..<k] (m::TDescriptor) ! i) c
         \<longleftrightarrow> bit (m ! i) c \<or> (i < k \<and> c < 8 \<and> P i c)"
  using assms
proof (induction k)
  case 0
  then show ?case by simp
next
  case (Suc k)
  have len: "length (fold (\<lambda>i. fold (\<lambda>b m. if P i b then m[i := ucast ((ucast (m ! i) :: 32 word) OR push_bit b 1)]
                            else m) [0..<8]) [0..<k] m) = length m" for k
    by (induction k) (simp_all add: length_inner_avg)
  show ?case
  proof (cases "i = k")
    case True
    with Suc show ?thesis by (simp add: inner_avg_bit len)
  next
    case False
    with Suc show ?thesis by (auto simp: inner_avg_other less_Suc_eq)
  qed
qed

lemma average_bit:
  assumes "i < length m"
  shows "bit (average L s sums m ! i) c \<longleftrightarrow> bit (m ! i) c \<or> (i < L \<and> c < 8 \<and> s < sums ! (i * 8 + c))"
  unfolding average_def using assms by (rule outer_avg_bit)


text \<open>
  C1: for a non-empty list of descriptors of \<open>L\<close> bytes each, \<open>meanValue\<close> returns a
  descriptor of \<open>L\<close> bytes in which bit \<open>b\<close> of byte \<open>i\<close> is set if and only if the
  descriptors with that bit set are strictly more than half of all of them, that is when
  twice their number exceeds the length of the list; a tie leaves the bit 0.
\<close>

theorem meanValue_majority:
  assumes "descriptors \<noteq> []" "\<forall>d \<in> set descriptors. length d = L"
  shows "\<exists>mean. meanValue L descriptors = Some mean \<and> length mean = L \<and>
           (\<forall>i < L. \<forall>b < 8. bit (mean ! i) b \<longleftrightarrow>
               length descriptors < 2 * votes descriptors i b)"
proof -
  from assms(2) have "\<forall>d \<in> set descriptors. L \<le> length d" by simp
  from sum_descriptors_Some [OF this, of "replicate (L * 8) 0"] obtain s' where
    s': "sum_descriptors L descriptors (replicate (L * 8) 0) = Some s'" "length s' = L * 8"
      "\<forall>k < L * 8. s' ! k = replicate (L * 8) 0 ! k + votes descriptors (k div 8) (k mod 8)"
    by auto
  let ?mean = "average L (length descriptors div 2) s' (replicate L 0)"
  have mv: "meanValue L descriptors = Some ?mean"
    by (simp add: meanValue_def s'(1))
  have "bit (?mean ! i) b \<longleftrightarrow> length descriptors < 2 * votes descriptors i b"
    if "i < L" "b < 8" for i b
  proof -
    from that have k: "i * 8 + b < L * 8" by simp
    from that have dm: "(i * 8 + b) div 8 = i" "(i * 8 + b) mod 8 = b" by simp_all
    from s'(3) k dm have "s' ! (i * 8 + b) = votes descriptors i b" by simp
    with that show ?thesis by (simp add: average_bit) presburger
  qed
  with mv show ?thesis by (simp add: length_average)
qed

theorem meanValue_majority_witness:
  "[[5, 1], [4, 1], [0, 0 :: byte]] \<noteq> [] \<and>
   list_all (\<lambda>d. length d = 2) [[5, 1], [4, 1], [0, 0 :: byte]] \<and>
   (\<exists>mean. meanValue 2 [[5, 1], [4, 1], [0, 0]] = Some mean \<and> length mean = 2 \<and>
      (\<forall>i < 2. \<forall>b < 8. bit (mean ! i) b \<longleftrightarrow>
          length [[5, 1], [4, 1], [0, 0 :: byte]] < 2 * votes [[5, 1], [4, 1], [0, 0]] i b))"
proof -
  have h1: "[[5, 1], [4, 1], [0, 0 :: byte]] \<noteq> []" by simp
  have h2: "\<forall>d \<in> set [[5, 1], [4, 1], [0, 0 :: byte]]. length d = 2" by simp
  have h3: "list_all (\<lambda>d. length d = 2) [[5, 1], [4, 1], [0, 0 :: byte]]" by simp
  from meanValue_majority [OF h1 h2] h1 h3 show ?thesis by blast
qed

text \<open>
  C8: for every list of descriptors, the empty one included, \<open>meanValue\<close> returns, and its
  result has exactly \<open>L\<close> bytes; for the empty list it is the descriptor of \<open>L\<close> zero bytes.
  A descriptor holds at least the \<open>L\<close> bytes that the function reads from it.
\<close>

theorem meanValue_total:
  assumes "\<forall>d \<in> set descriptors. L \<le> length d"
  shows "(\<exists>mean. meanValue L descriptors = Some mean \<and> length mean = L) \<and>
         meanValue L [] = Some (replicate L 0)"
proof -
  from sum_descriptors_Some [OF assms, of "replicate (L * 8) 0"] obtain s' where
    "sum_descriptors L descriptors (replicate (L * 8) 0) = Some s'"
    by auto
  then have "\<exists>mean. meanValue L descriptors = Some mean \<and> length mean = L"
    by (simp add: meanValue_def length_average)
  moreover have "average L 0 (replicate (L * 8) 0) (replicate L 0) = replicate L 0"
  proof (rule nth_equalityI)
    show "length (average L 0 (replicate (L * 8) 0) (replicate L 0)) = length (replicate L (0::byte))"
      by (simp add: length_average)
  next
    fix i assume "i < length (average L 0 (replicate (L * 8) 0) (replicate L 0))"
    then have i: "i < L" by (simp add: length_average)
    then have "i * 8 + c < L * 8" if "c < 8" for c using that by simp
    with i show "average L 0 (replicate (L * 8) 0) (replicate L 0) ! i = replicate L 0 ! i"
      by (intro bit_eqI) (simp add: average_bit)
  qed
  then have "meanValue L [] = Some (replicate L 0)"
    by (simp add: meanValue_def)
  ultimately show ?thesis by simp
qed

theorem meanValue_total_witness:
  "list_all (\<lambda>d. 2 \<le> length d) [[5, 1, 9], [4, 1 :: byte]] \<and>
   (\<exists>mean. meanValue 2 [[5, 1, 9], [4, 1]] = Some mean \<and> length mean = 2) \<and>
   meanValue 2 [] = Some (replicate 2 0)"
proof -
  have h: "\<forall>d \<in> set [[5, 1, 9], [4, 1 :: byte]]. 2 \<le> length d" by simp
  have h': "list_all (\<lambda>d. 2 \<le> length d) [[5, 1, 9], [4, 1 :: byte]]" by simp
  from meanValue_total [OF h] h' show ?thesis by blast
qed

subsection \<open>The distance is the Hamming distance\<close>
lemma length_filter_product:
  "length (filter P (List.product xs ys)) =
     sum_list (map (\<lambda>x. length (filter (\<lambda>y. P (x, y)) ys)) xs)"
  by (induction xs) (simp_all add: filter_map comp_def)

lemma popcount_xor: "popcount (x XOR y) = length (filter (\<lambda>k. bit x k \<noteq> bit y k) [0..<8])"
proof -
  have "bit (x XOR y) = (\<lambda>k. bit x k \<noteq> bit y k)"
    by (auto simp: fun_eq_iff bit_xor_iff)
  then show ?thesis by (simp add: popcount_def)
qed

lemma hamming_sum: "hamming L a b = sum_list (map (\<lambda>i. popcount (a ! i XOR b ! i)) [0..<L])"
  by (simp add: hamming_def length_filter_product popcount_xor)

lemma popcount_self: "popcount 0 = 0"
  by (simp add: popcount_def)


text \<open>
  C2: for two descriptors of \<open>L\<close> bytes, \<open>distance\<close> is the Hamming distance, the number
  of bit positions over all \<open>L\<close> bytes in which they differ. \<open>distance\<close> passes \<open>L/16\<close>
  words of 128 bits to \<open>PopcntofXORed\<close>, which covers the \<open>L\<close> bytes when \<open>L\<close> is a
  multiple of 16, as the 48 bytes of a BRISK descriptor are.
\<close>

theorem distance_hamming:
  assumes "0 < L" "16 dvd L" "length a = L" "length b = L"
  shows "distance L a b = Some (int (hamming L a b))"
proof -
  from assms(2) have "16 * (L div 16) = L" by simp
  with assms show ?thesis
    by (auto simp: distance_def PopcntofXORed_def hamming_sum)
qed

theorem distance_hamming_witness:
  "(0::nat) < 48 \<and> (16::nat) dvd 48 \<and> length (replicate 48 (255::byte)) = 48 \<and>
   length (replicate 48 (0::byte)) = 48 \<and>
   distance 48 (replicate 48 255) (replicate 48 0) =
     Some (int (hamming 48 (replicate 48 255) (replicate 48 0)))"
proof -
  have h1: "(0::nat) < 48" and h2: "(16::nat) dvd 48" by simp_all
  have h3: "length (replicate 48 (255::byte)) = 48" and h4: "length (replicate 48 (0::byte)) = 48"
    by simp_all
  from distance_hamming [OF h1 h2 h3 h4] h1 h2 h3 h4 show ?thesis by blast
qed

text \<open>
  C3: for descriptors \<open>a\<close> and \<open>b\<close> of \<open>L\<close> bytes, \<open>distance\<close> is not negative, it is
  symmetric, and the distance from \<open>a\<close> to \<open>a\<close> is 0.
\<close>

theorem distance_metric:
  assumes "0 < L" "length a = L" "length b = L"
  shows "\<exists>d. distance L a b = Some d \<and> 0 \<le> d \<and> distance L b a = Some d \<and> distance L a a = Some 0"
proof -
  have "16 * (L div 16) \<le> L" by simp
  with assms show ?thesis
    by (auto simp: distance_def PopcntofXORed_def popcount_self xor.commute)
qed

theorem distance_metric_witness:
  "(0::nat) < 48 \<and> length (replicate 48 (255::byte)) = 48 \<and>
   length (replicate 48 (0::byte)) = 48 \<and>
   (\<exists>d. distance 48 (replicate 48 255) (replicate 48 0) = Some d \<and> 0 \<le> d \<and>
        distance 48 (replicate 48 0) (replicate 48 255) = Some d \<and>
        distance 48 (replicate 48 255) (replicate 48 255) = Some 0)"
proof -
  have h1: "(0::nat) < 48" by simp
  have h3: "length (replicate 48 (255::byte)) = 48" and h4: "length (replicate 48 (0::byte)) = 48"
    by simp_all
  from distance_metric [OF h1 h3 h4] h1 h3 h4 show ?thesis by blast
qed

subsection \<open>The string form of a descriptor\<close>


lemma toString_concat:
  "fold (\<lambda>i ss. ss @ f i) [0..<n] acc = acc @ concat (map f [0..<n])"
  by (induction n arbitrary: acc) simp_all

lemma of_char_digit: "d < 10 \<Longrightarrow> (of_char (char_of (48 + d :: nat)) :: nat) = 48 + d"
  by (simp add: of_char_of)

lemma decimal_digits: "\<forall>c \<in> set (decimal n). is_digit c"
proof (induction n rule: decimal.induct)
  case (1 n)
  show ?case
  proof (cases "n < 10")
    case True
    then show ?thesis by (subst decimal.simps) (simp add: is_digit_def of_char_digit)
  next
    case False
    with 1 show ?thesis
      by (subst decimal.simps) (simp add: is_digit_def of_char_digit)
  qed
qed

lemma decimal_nonempty: "decimal n \<noteq> []"
  by (subst decimal.simps) simp

lemma digits_value_snoc: "digits_value (ds @ [c]) = 10 * digits_value ds + (of_char c - 48)"
  by (simp add: digits_value_def)

lemma digits_value_decimal: "digits_value (decimal n) = n"
proof (induction n rule: decimal.induct)
  case (1 n)
  show ?case
  proof (cases "n < 10")
    case True
    then show ?thesis by (subst decimal.simps) (simp add: digits_value_def of_char_digit)
  next
    case False
    with 1 show ?thesis
      by (subst decimal.simps) (simp add: digits_value_snoc of_char_digit)
  qed
qed

lemma digit_not_space: "is_digit c \<Longrightarrow> \<not> is_space c"
  by (auto simp: is_digit_def is_space_def)

lemma digit_not_sign: "is_digit c \<Longrightarrow> c \<noteq> CHR ''-'' \<and> c \<noteq> CHR ''+''"
  by (auto simp: is_digit_def)

lemma space_props: "is_space CHR '' ''" "\<not> is_digit CHR '' ''"
  by (simp_all add: is_space_def is_digit_def)

lemma extract_int_decimal:
  assumes "n \<le> 2147483647" "\<forall>c \<in> set pre. is_space c"
  shows "extract_int \<lparr>buf = pre @ decimal n @ CHR '' '' # rest, good = True\<rparr> =
           (Some (int n), \<lparr>buf = CHR '' '' # rest, good = True\<rparr>)"
proof -
  obtain c cs where dec: "decimal n = c # cs"
    using decimal_nonempty [of n] by (cases "decimal n") auto
  have digs: "\<forall>c \<in> set (decimal n). is_digit c" by (rule decimal_digits)
  with dec have c: "is_digit c" by simp
  have r: "dropWhile is_space (pre @ decimal n @ CHR '' '' # rest) = decimal n @ CHR '' '' # rest"
    using assms(2) c dec by (simp add: dropWhile_append3 digit_not_space)
  have tw: "takeWhile is_digit (decimal n @ CHR '' '' # rest) = decimal n"
    using digs by (simp add: takeWhile_append2 space_props)
  have dw: "dropWhile is_digit (decimal n @ CHR '' '' # rest) = CHR '' '' # rest"
    using digs by (simp add: dropWhile_append2 space_props)
  have hd: "hd (decimal n @ CHR '' '' # rest) = c" using dec by simp
  show ?thesis
    using assms(1) c decimal_nonempty [of n]
    by (simp add: extract_int_def r Let_def hd digit_not_sign tw dw digits_value_decimal)
qed

lemma read_bytes_roundtrip:
  assumes "\<forall>c \<in> set pre. is_space c"
  shows "read_bytes (length xs)
           \<lparr>buf = pre @ concat (map (\<lambda>x. show_int (uint x) @ '' '') (xs :: byte list)), good = True\<rparr> = Some xs"
  using assms
proof (induction xs arbitrary: pre)
  case Nil
  then show ?case by simp
next
  case (Cons x xs)
  have "unat x < 2 ^ LENGTH(8)" by (rule unsigned_less)
  then have ux: "unat x \<le> 2147483647" by simp
  have sx: "show_int (uint x) = decimal (unat x)"
    by (simp add: show_int_def)
  have w: "word_of_int (int (unat x)) = x" "word_of_nat (unat x) = x" by simp_all
  have "read_bytes (length xs)
          \<lparr>buf = '' '' @ concat (map (\<lambda>x. show_int (uint x) @ '' '') xs), good = True\<rparr> = Some xs"
    by (rule Cons.IH) (simp add: space_props)
  with Cons.prems ux show ?case
    by (simp add: sx extract_int_decimal w)
qed


text \<open>
  C4: for a descriptor \<open>a\<close> of \<open>L\<close> bytes, \<open>toString\<close> returns a string from which
  \<open>fromString\<close> reads \<open>a\<close> back.
\<close>

theorem string_roundtrip:
  assumes "length a = L"
  shows "\<exists>s. toString L a = Some s \<and> fromString L s = Some a"
proof -
  have "map (\<lambda>i. show_int (uint (a ! i)) @ '' '') [0..<length a] = map (\<lambda>x. show_int (uint x) @ '' '') a"
    by (rule nth_equalityI) simp_all
  then have "toString L a = Some (concat (map (\<lambda>x. show_int (uint x) @ '' '') a))"
    using assms by (simp add: toString_def toString_concat)
  moreover have "fromString L (concat (map (\<lambda>x. show_int (uint x) @ '' '') a)) = Some a"
    using read_bytes_roundtrip [of "[]" a] assms by (simp add: fromString_def)
  ultimately show ?thesis by simp
qed

theorem string_roundtrip_witness:
  "length [0, 255, 7 :: byte] = 3 \<and>
   (\<exists>s. toString 3 [0, 255, 7] = Some s \<and> fromString 3 s = Some [0, 255, 7])"
proof -
  have h: "length [0, 255, 7 :: byte] = 3" by simp
  from string_roundtrip [OF h] h show ?thesis by blast
qed

subsection \<open>The float matrix of toMat32F\<close>

text \<open>
  A descriptor of exactly \<open>L\<close> bytes, \<open>L\<close> at least 2, is always read behind its end:
  the index \<open>j\<close> reaches \<open>L\<close> before it reaches \<open>L * 8\<close>.
\<close>

lemma toMat32F_row_out_of_range:
  "2 \<le> L \<Longrightarrow> length desc = L \<Longrightarrow> j < L * 8 \<Longrightarrow> toMat32F_row L desc j row = None"
proof (induction L desc j row rule: toMat32F_row.induct)
  case (1 L desc j row)
  show ?case
  proof (cases "length desc \<le> j")
    case True
    with "1.prems" show ?thesis by (subst toMat32F_row.simps) simp
  next
    case False
    with "1.prems" have "j + 8 < L * 8" by linarith
    with False "1.prems" "1.IH" show ?thesis
      by (subst toMat32F_row.simps) simp
  qed
qed

lemma toMat32F_out_of_range:
  "2 \<le> L \<Longrightarrow> length desc = L \<Longrightarrow> toMat32F L (desc # rest) = None"
  by (simp add: toMat32F_def toMat32F_row_out_of_range)

text \<open>
  C9: the claim is that entry \<open>(i, 8 * j + b)\<close> of the matrix is non-zero exactly when bit
  \<open>b\<close> of byte \<open>j\<close> of descriptor \<open>i\<close> is set. The loop advances \<open>j\<close> in steps of 8 and
  reads \<^verbatim>\<open>desc[size_t(j)]\<close>, so the eight columns from \<open>8 * j\<close> on hold the bits of byte
  \<open>8 * j\<close>, not of byte \<open>j\<close>. With a descriptor of 48 bytes and \<open>L = 48\<close> the seventh
  group of columns reads \<^verbatim>\<open>desc[48]\<close>, behind the end of the descriptor. With \<open>L = 2\<close>
  and a vector of nine bytes every read is in range, and columns 8 to 15 are the bits of
  byte 8 (here 0), although byte 1 (here 255) has every bit set.
\<close>

theorem toMat32F_reads_wrong_byte:
  "toMat32F 48 [replicate 48 1] = None \<and>
   toMat32F 2 [[5, 255, 0, 0, 0, 0, 0, 0, 0]] =
     Some [[1, 0, 4, 0, 0, 0, 0, 0, 0, 0, 0, 0, 0, 0, 0, 0]]"
  by code_simp

section \<open>Properties of the conversion from a matrix\<close>


lemma length_resize: "length (resize n d xs) = n"
  by (simp add: resize_def)

lemma chunk_eq_row:
  assumes "isContinuous mat" "cols mat = L" "j < rows mat"
  shows "take L (drop (j * L) (data mat)) = map (at mat j) [0..<L]"
proof (rule nth_equalityI)
  from assms have "j * L + L \<le> rows mat * L"
    by (metis Suc_leI mult_Suc mult_le_mono1 add.commute)
  with assms show len: "length (take L (drop (j * L) (data mat))) = length (map (at mat j) [0..<L])"
    by (simp add: isContinuous_def)
  fix b assume "b < length (take L (drop (j * L) (data mat)))"
  with len have "b < L" by simp
  with assms \<open>j * L + L \<le> rows mat * L\<close>
  show "take L (drop (j * L) (data mat)) ! b = map (at mat j) [0..<L] ! b"
    by (simp add: isContinuous_def at_def)
qed

lemma changeStructure_loop_rows:
  assumes "isContinuous mat" "cols mat = L" "0 < L" "rows mat * L \<le> 2147483647"
    "length out = rows mat" "j \<le> rows mat"
  shows "changeStructure_loop mat (int L) (int (j * L)) j out =
           Inr (take j out @ map (\<lambda>r. map (at mat r) [0..<L]) [j..<rows mat])"
  using assms(5,6)
proof (induction "rows mat - j" arbitrary: j out)
  case 0
  then have "j = rows mat" by simp
  with 0 assms(2) show ?case
    by (subst changeStructure_loop.simps) simp
next
  case (Suc n)
  then have j: "j < rows mat" by simp
  then have le: "j * L + L \<le> rows mat * L"
    by (metis Suc_leI mult_Suc mult_le_mono1 add.commute)
  let ?out = "out[j := take L (drop (j * L) (data mat))]"
  have IH: "changeStructure_loop mat (int L) (int (Suc j * L)) (Suc j) ?out =
           Inr (take (Suc j) ?out @ map (\<lambda>r. map (at mat r) [0..<L]) [Suc j..<rows mat])"
    using Suc j by (intro Suc.hyps(1)) simp_all
  have tk: "take (Suc j) ?out = take j out @ [map (at mat j) [0..<L]]"
    using j Suc.prems(1) assms(1,2)
    by (simp add: take_Suc_conv_app_nth chunk_eq_row)
  have c1: "int (j * L) < int (rows mat * cols mat)"
    using j assms(2,3) by simp
  have c2: "\<not> length out \<le> j" using j Suc.prems(1) by simp
  have c3: "\<not> int L < 0" by simp
  have sm: "int (j * L) + int L = int (j * L + L)" by simp
  from le assms(1,2) have "\<not> length (data mat) < j * L + L"
    by (simp add: isContinuous_def)
  then have c4: "\<not> int (length (data mat)) < int (j * L) + int L"
    unfolding sm by (simp only: of_nat_less_iff not_False_eq_True)
  from le assms(4) have "j * L + L \<le> 2147483647" by simp
  then have "int (j * L + L) \<le> int 2147483647" by (simp only: of_nat_le_iff)
  then have c5: "\<not> 2147483647 < int (j * L) + int L"
    unfolding sm by simp
  have eq: "int (j * L) + int L = int (Suc j * L)" by (simp add: algebra_simps)
  have "changeStructure_loop mat (int L) (int (j * L)) j out =
          changeStructure_loop mat (int L) (int (j * L) + int L) (Suc j)
            (out[j := take (nat (int L)) (drop (nat (int (j * L))) (data mat))])"
    by (subst changeStructure_loop.simps) (simp only: c1 c2 c3 c4 c5 if_True if_False)
  then have "changeStructure_loop mat (int L) (int (j * L)) j out =
          changeStructure_loop mat (int L) (int (Suc j * L)) (Suc j) ?out"
    by (simp only: eq nat_int)
  moreover have "[j..<rows mat] = j # [Suc j..<rows mat]"
    using j by (rule upt_conv_Cons)
  ultimately show ?case using IH tk by simp
qed

lemma copy_row_fold:
  assumes "n \<le> L" "length d = L" "i * step plain + L \<le> length (data plain)"
  shows "fold (\<lambda>j r. case r of
                    Inl e \<Rightarrow> Inl e
                  | Inr d' \<Rightarrow> if length (data plain) \<le> i * step plain + j then Inl OutOfRange
                              else Inr (d'[j := data plain ! (i * step plain + j)]))
       [0..<n] (Inr d) = Inr (map (at plain i) [0..<n] @ drop n d)"
  using assms(1)
proof (induction n)
  case 0
  then show ?case by simp
next
  case (Suc n)
  with assms(2,3) show ?case
    by (simp add: at_def list_update_append upd_conv_take_nth_drop Cons_nth_drop_Suc)
qed

lemma copy_row_ok:
  assumes "i * step plain + L \<le> length (data plain)"
  shows "copy_row L plain i d = Inr (map (at plain i) [0..<L])"
  unfolding copy_row_def
  using copy_row_fold [of L L "resize L 0 d" i plain] assms
  by (simp add: length_resize)

lemma changeStructureBRISK_fold:
  assumes "isContinuous plain" "cols plain = L" "n \<le> rows plain" "length out = rows plain"
  shows "fold (\<lambda>i r. case r of
                    Inl e \<Rightarrow> Inl e
                  | Inr out' \<Rightarrow> (case copy_row L plain i (out' ! i) of
                                   Inl e \<Rightarrow> Inl e
                                 | Inr d \<Rightarrow> Inr (out'[i := d])))
       [0..<n] (Inr out) = Inr (map (\<lambda>r. map (at plain r) [0..<L]) [0..<n] @ drop n out)"
  using assms(3)
proof (induction n)
  case 0
  then show ?case by simp
next
  case (Suc n)
  then have "n < rows plain" by simp
  then have "n * L + L \<le> rows plain * L"
    by (metis Suc_leI mult_Suc mult_le_mono1 add.commute)
  with assms(1,2) have "n * step plain + L \<le> length (data plain)"
    by (simp add: isContinuous_def)
  with Suc assms(4) show ?case
    by (simp add: copy_row_ok list_update_append upd_conv_take_nth_drop Cons_nth_drop_Suc)
qed


text \<open>
  C10: for a continuous matrix of bytes with \<open>N\<close> rows and exactly \<open>L\<close> columns, both
  \<open>changeStructure\<close> and \<open>changeStructureBRISK\<close> return \<open>N\<close> descriptors of \<open>L\<close> bytes
  each, and byte \<open>b\<close> of descriptor \<open>j\<close> is the element at row \<open>j\<close> and column \<open>b\<close>,
  whatever \<open>out\<close> held before. \<open>L\<close> is positive, and the matrix has at most \<open>2^31 - 1\<close>
  elements, the range in which the \<^verbatim>\<open>int\<close> product \<^verbatim>\<open>mat.rows*mat.cols\<close> is defined.
\<close>

theorem changeStructure_rows:
  assumes "isContinuous mat" "cols mat = L" "0 < L" "rows mat * L \<le> 2147483647"
  shows "changeStructure mat (int L) out = Inr (map (\<lambda>j. map (at mat j) [0..<L]) [0..<rows mat]) \<and>
         changeStructureBRISK L mat out = Inr (map (\<lambda>j. map (at mat j) [0..<L]) [0..<rows mat])"
proof
  show "changeStructure mat (int L) out = Inr (map (\<lambda>j. map (at mat j) [0..<L]) [0..<rows mat])"
    using changeStructure_loop_rows [OF assms, of "resize (rows mat) [] out" 0] assms(2,4)
    by (simp add: changeStructure_def length_resize)
  show "changeStructureBRISK L mat out = Inr (map (\<lambda>j. map (at mat j) [0..<L]) [0..<rows mat])"
    using changeStructureBRISK_fold [OF assms(1,2), of "rows mat" "resize (rows mat) [] out"]
    by (simp add: changeStructureBRISK_def length_resize)
qed

theorem changeStructure_rows_witness:
  "isContinuous \<lparr>rows = 2, cols = 3, step = 3, data = [1, 2, 3, 4, 5, 6]\<rparr> \<and>
   cols \<lparr>rows = 2, cols = 3, step = 3, data = [1, 2, 3, 4, 5, 6]\<rparr> = 3 \<and>
   (0::nat) < 3 \<and>
   rows \<lparr>rows = 2, cols = 3, step = 3, data = [1, 2, 3, 4, 5, 6]\<rparr> * 3 \<le> 2147483647 \<and>
   changeStructure \<lparr>rows = 2, cols = 3, step = 3, data = [1, 2, 3, 4, 5, 6]\<rparr> 3 [[9, 9]] =
     Inr [[1, 2, 3], [4, 5, 6]] \<and>
   changeStructureBRISK 3 \<lparr>rows = 2, cols = 3, step = 3, data = [1, 2, 3, 4, 5, 6]\<rparr> [[9, 9]] =
     Inr [[1, 2, 3], [4, 5, 6]]"
proof -
  let ?m = "\<lparr>rows = 2, cols = 3, step = 3, data = [1, 2, 3, 4, 5, 6 :: byte]\<rparr>"
  have h1: "isContinuous ?m" by (simp add: isContinuous_def)
  have h2: "cols ?m = 3" by simp
  have h3: "(0::nat) < 3" by simp
  have h4: "rows ?m * 3 \<le> 2147483647" by simp
  have up: "[0..<2] = [0, 1]" "[0..<3] = [0, 1, 2]" by (simp_all add: upt_rec)
  from changeStructure_rows [OF h1 h2 h3 h4, of "[[9, 9]]"] h1 h4 show ?thesis
    by (simp add: at_def up)
qed

section \<open>Properties of the loader\<close>


lemma succ_nonzero: "nid \<noteq> (- 1 :: NodeId) \<Longrightarrow> 1 + nid \<noteq> 0"
  by (metis add.right_inverse minus_add_cancel)

lemma unat_succ_no_wrap:
  assumes "nid \<noteq> (- 1 :: NodeId)"
  shows "unat (nid + 1) = Suc (unat nid)"
  using unatSuc [OF succ_nonzero [OF assms]] by (simp add: add.commute)

lemma resize_nth: "k < length xs \<Longrightarrow> k < n \<Longrightarrow> resize n d xs ! k = xs ! k"
  by (simp add: resize_def nth_append)

text \<open>One turn of the node loop on a record that can be stored.\<close>

lemma store_node_ok:
  assumes "storable grants r"
  shows "\<exists>nd'. store_node grants nd r = Inr nd' \<and> unat (nodeId r) < length nd' \<and>
           length nd \<le> length nd' \<and>
           nd' ! unat (nodeId r) =
             \<lparr>node_id = nodeId r, parent = parentId r, node_weight = weight r,
              descriptor_str = descriptor r\<rparr> \<and>
           (\<forall>k < length nd. k \<noteq> unat (nodeId r) \<longrightarrow> nd' ! k = nd ! k)"
proof (cases "length nd \<le> unat (nodeId r)")
  case True
  let ?nd = "resize (Suc (unat (nodeId r))) empty_NodeData nd"
  from assms have n: "unat (nodeId r + 1) = Suc (unat (nodeId r))"
    and g: "grants (Suc (unat (nodeId r)))"
    by (simp_all add: storable_def unat_succ_no_wrap)
  from True have "store_node grants nd r =
      Inr (?nd[unat (nodeId r) := \<lparr>node_id = nodeId r, parent = parentId r, node_weight = weight r,
              descriptor_str = descriptor r\<rparr>])"
    by (simp add: store_node_def Let_def n g length_resize)
  with True show ?thesis
    by (simp add: length_resize resize_nth)
next
  case False
  then have "store_node grants nd r =
      Inr (nd[unat (nodeId r) := \<lparr>node_id = nodeId r, parent = parentId r, node_weight = weight r,
              descriptor_str = descriptor r\<rparr>])"
    by (simp add: store_node_def Let_def)
  with False show ?thesis by simp
qed

lemma store_node_fault: "store_node grants nd r = Inl e \<Longrightarrow> e = BadAlloc \<or> e = OutOfRange"
  by (auto simp: store_node_def Let_def split: if_splits)

lemma load_nodes_fault:
  "load_nodes grants fn it c rd nd = (rd', Inl e) \<Longrightarrow> e = BadAlloc \<or> e = OutOfRange"
proof (induction grants fn it c rd nd rule: load_nodes.induct)
  case (1 grants fn it c rd nd)
  show ?case
  proof (cases "it < length fn")
    case True
    show ?thesis
    proof (cases "store_node grants nd (fn ! it)")
      case (Inl e')
      with True "1.prems" have "e = e'"
        by (subst (asm) load_nodes.simps) simp
      with Inl show ?thesis by (auto dest: store_node_fault)
    next
      case (Inr nd')
      with True "1.prems" have "load_nodes grants fn (Suc it) (Suc c) (rd @ [it]) nd' = (rd', Inl e)"
        by (subst (asm) load_nodes.simps) simp
      with True Inr show ?thesis by (rule "1.IH")
    qed
  next
    case False
    with "1.prems" show ?thesis by (subst (asm) load_nodes.simps) simp
  qed
qed

text \<open>
  A run of the node loop from position \<open>it\<close> over records that can all be stored: it
  reads the positions from \<open>it\<close> to the end once each, in order, counts them, and leaves
  alone every index that no record from \<open>it\<close> on names.
\<close>

lemma load_nodes_ok:
  assumes "\<forall>r \<in> set fn. storable grants r"
  shows "\<exists>nd'. load_nodes grants fn it c rd nd =
              (rd @ [it..<length fn], Inr (c + (length fn - it), nd')) \<and>
           length nd \<le> length nd' \<and>
           (\<forall>k < length nd. (\<forall>j. it \<le> j \<and> j < length fn \<longrightarrow> unat (nodeId (fn ! j)) \<noteq> k) \<longrightarrow>
              nd' ! k = nd ! k)"
proof (induction "length fn - it" arbitrary: it c rd nd)
  case 0
  then have "\<not> it < length fn" by simp
  then show ?case by (subst load_nodes.simps) simp
next
  case (Suc n)
  then have it: "it < length fn" by simp
  with assms have "storable grants (fn ! it)" by simp
  from store_node_ok [OF this, of nd] obtain nd1 where
    nd1: "store_node grants nd (fn ! it) = Inr nd1" "length nd \<le> length nd1"
      "\<forall>k < length nd. k \<noteq> unat (nodeId (fn ! it)) \<longrightarrow> nd1 ! k = nd ! k"
    by blast
  from Suc.hyps(2) have "n = length fn - Suc it" by simp
  from Suc.hyps(1) [OF this, of "Suc c" "rd @ [it]" nd1] obtain nd' where
    nd': "load_nodes grants fn (Suc it) (Suc c) (rd @ [it]) nd1 =
            ((rd @ [it]) @ [Suc it..<length fn], Inr (Suc c + (length fn - Suc it), nd'))"
      "length nd1 \<le> length nd'"
      "\<forall>k < length nd1. (\<forall>j. Suc it \<le> j \<and> j < length fn \<longrightarrow> unat (nodeId (fn ! j)) \<noteq> k) \<longrightarrow>
          nd' ! k = nd1 ! k"
    by blast
  have run: "load_nodes grants fn it c rd nd =
               load_nodes grants fn (Suc it) (Suc c) (rd @ [it]) nd1"
    using it nd1(1) by (subst load_nodes.simps) simp
  have up: "[it..<length fn] = it # [Suc it..<length fn]"
    using it by (rule upt_conv_Cons)
  have keep: "nd' ! k = nd ! k"
    if "k < length nd" "\<forall>j. it \<le> j \<and> j < length fn \<longrightarrow> unat (nodeId (fn ! j)) \<noteq> k" for k
  proof -
    from that it have "unat (nodeId (fn ! it)) \<noteq> k" by simp
    with that(1) nd1(3) have "nd1 ! k = nd ! k" by simp
    moreover from that nd1(2) nd'(3) have "nd' ! k = nd1 ! k" by simp
    ultimately show ?thesis by simp
  qed
  from it have cnt: "Suc c + (length fn - Suc it) = c + (length fn - it)" by simp
  have "load_nodes grants fn it c rd nd =
          (rd @ [it..<length fn], Inr (c + (length fn - it), nd'))"
    unfolding run nd'(1) up cnt by simp
  moreover from nd1(2) nd'(2) have "length nd \<le> length nd'" by simp
  ultimately show ?case using keep by blast
qed


lemma load_words_eq:
  "load_words fw it c rd wd =
     (rd @ [it..<length fw], c + (length fw - it),
      wd @ map (\<lambda>w. (wordId w, word_nodeId w)) (drop it fw))"
proof (induction "length fw - it" arbitrary: it c rd wd)
  case 0
  then show ?case by (subst load_words.simps) simp
next
  case (Suc n)
  then have it: "it < length fw" by simp
  from Suc.hyps(2) have "n = length fw - Suc it" by simp
  from Suc.hyps(1) [OF this] it show ?case
    by (subst load_words.simps) (simp add: upt_conv_Cons Cons_nth_drop_Suc [symmetric])
qed






text \<open>
  C6, as it is claimed: \<open>load\<close> fails if and only if the file cannot be opened or has no
  node \<open>vocabulary\<close>. It fails on other files too. Here the file is opened and has a
  vocabulary node; with the node id 4294967295, \<^verbatim>\<open>nid + 1\<close> wraps, the vector is resized to
  0 elements and the store is out of range; with the node id 4294967294 the vector is
  resized to 4294967295 elements, which an allocator that grants 1000 refuses.
\<close>

theorem load_fails_on_node_id:
  "(\<lambda>name :: string. Some (\<lambda>key :: string.
        Some \<lparr>voc_k = 2, voc_L = 1, scoringType = 0, weightingType = 0,
              nodes = [\<lparr>nodeId = 4294967295, parentId = 0, weight = 5 :: int, descriptor = ''7 ''\<rparr>],
              words = []\<rparr>)) ''voc.yml'' \<noteq> None \<and>
   (\<lambda>key :: string.
        Some \<lparr>voc_k = 2, voc_L = 1, scoringType = 0, weightingType = 0,
              nodes = [\<lparr>nodeId = 4294967295, parentId = 0, weight = 5 :: int, descriptor = ''7 ''\<rparr>],
              words = []\<rparr>) ''vocabulary'' \<noteq> None \<and>
   load (\<lambda>n. n \<le> 1000)
     (\<lambda>name. Some (\<lambda>key.
        Some \<lparr>voc_k = 2, voc_L = 1, scoringType = 0, weightingType = 0,
              nodes = [\<lparr>nodeId = 4294967295, parentId = 0, weight = 5 :: int, descriptor = ''7 ''\<rparr>],
              words = []\<rparr>))
     ''voc.yml'' = (\<lparr>nodes_read = [0], words_read = []\<rparr>, Inl OutOfRange) \<and>
   load (\<lambda>n. n \<le> 1000)
     (\<lambda>name. Some (\<lambda>key.
        Some \<lparr>voc_k = 2, voc_L = 1, scoringType = 0, weightingType = 0,
              nodes = [\<lparr>nodeId = 4294967294, parentId = 0, weight = 5 :: int, descriptor = ''7 ''\<rparr>],
              words = []\<rparr>))
     ''voc.yml'' = (\<lparr>nodes_read = [0], words_read = []\<rparr>, Inl BadAlloc)"
  by (simp add: load_def load_nodes.simps [of _ _ 0] store_node_def Let_def resize_def)

text \<open>
  C6, amended: \<open>load\<close> throws one of its two messages if and only if the file cannot be
  opened or has no node \<open>vocabulary\<close>, and in both cases it has read no record of the node
  list or the word list. On an opened file with a vocabulary node it returns whenever the
  allocator grants the room asked for and no node id is the largest \<^verbatim>\<open>unsigned int\<close>.
\<close>

theorem load_throws_before_reading:
  "(files filename = None \<longrightarrow>
      load grants files filename =
        (\<lparr>nodes_read = [], words_read = []\<rparr>, Inl (Thrown (''Could not open file '' @ filename)))) \<and>
   (\<forall>fs. files filename = Some fs \<and> fs ''vocabulary'' = None \<longrightarrow>
      load grants files filename =
        (\<lparr>nodes_read = [], words_read = []\<rparr>,
         Inl (Thrown ''File does not contain 'vocabulary' node''))) \<and>
   ((\<exists>msg. snd (load grants files filename) = Inl (Thrown msg)) \<longleftrightarrow>
      (files filename = None \<or> (\<exists>fs. files filename = Some fs \<and> fs ''vocabulary'' = None))) \<and>
   (\<forall>fs fvoc. files filename = Some fs \<and> fs ''vocabulary'' = Some fvoc \<and>
        grants (length (nodes fvoc) + 1) \<and>
        (\<forall>r \<in> set (nodes fvoc). nodeId r \<noteq> - 1 \<and> grants (Suc (unat (nodeId r)))) \<longrightarrow>
      (\<exists>res. snd (load grants files filename) = Inr res))"
proof -
  have not_thrown: "snd (load grants files filename) \<noteq> Inl (Thrown msg)"
    if "files filename = Some fs" "fs ''vocabulary'' = Some fvoc" for fs fvoc msg
  proof (cases "load_nodes grants (nodes fvoc) 0 0 [] [empty_NodeData]")
    case (Pair rd r)
    show ?thesis
    proof (cases r)
      case (Inl e)
      with Pair have "e = BadAlloc \<or> e = OutOfRange" by (auto dest: load_nodes_fault)
      with that Pair Inl show ?thesis by (auto simp: load_def)
    next
      case (Inr cn)
      with that Pair show ?thesis
        by (cases cn) (auto simp: load_def load_words_eq)
    qed
  qed
  have returns: "\<exists>res. snd (load grants files filename) = Inr res"
    if "files filename = Some fs" "fs ''vocabulary'' = Some fvoc"
      "grants (length (nodes fvoc) + 1)"
      "\<forall>r \<in> set (nodes fvoc). nodeId r \<noteq> - 1 \<and> grants (Suc (unat (nodeId r)))" for fs fvoc
  proof -
    from that(4) have "\<forall>r \<in> set (nodes fvoc). storable grants r"
      by (simp add: storable_def)
    from load_nodes_ok [OF this, of 0 0 "[]" "[empty_NodeData]"] obtain ndf where
      "load_nodes grants (nodes fvoc) 0 0 [] [empty_NodeData] =
         ([0..<length (nodes fvoc)], Inr (length (nodes fvoc), ndf))"
      by auto
    with that(1,2,3) show ?thesis by (simp add: load_def load_words_eq)
  qed
  have iff: "(\<exists>msg. snd (load grants files filename) = Inl (Thrown msg)) \<longleftrightarrow>
      (files filename = None \<or> (\<exists>fs. files filename = Some fs \<and> fs ''vocabulary'' = None))"
  proof (cases "files filename")
    case None
    then show ?thesis by (simp add: load_def)
  next
    case (Some fs)
    show ?thesis
    proof (cases "fs ''vocabulary''")
      case None
      with Some show ?thesis by (simp add: load_def)
    next
      case (Some fvoc)
      with \<open>files filename = Some fs\<close> not_thrown show ?thesis by simp
    qed
  qed
  have "files filename = None \<longrightarrow>
      load grants files filename =
        (\<lparr>nodes_read = [], words_read = []\<rparr>, Inl (Thrown (''Could not open file '' @ filename)))"
    by (simp add: load_def)
  moreover have "\<forall>fs. files filename = Some fs \<and> fs ''vocabulary'' = None \<longrightarrow>
      load grants files filename =
        (\<lparr>nodes_read = [], words_read = []\<rparr>,
         Inl (Thrown ''File does not contain 'vocabulary' node''))"
    by (simp add: load_def)
  ultimately show ?thesis using iff returns by blast
qed

theorem load_throws_before_reading_witness:
  "load (\<lambda>n. n \<le> 1000) (\<lambda>name. None :: int FileStorage option) ''voc.yml'' =
     (\<lparr>nodes_read = [], words_read = []\<rparr>, Inl (Thrown ''Could not open file voc.yml'')) \<and>
   load (\<lambda>n. n \<le> 1000) (\<lambda>name. Some (\<lambda>key. None :: int VocabularyNode option)) ''voc.yml'' =
     (\<lparr>nodes_read = [], words_read = []\<rparr>,
      Inl (Thrown ''File does not contain 'vocabulary' node'')) \<and>
   (\<exists>res. snd (load (\<lambda>n. n \<le> 1000)
      (\<lambda>name. Some (\<lambda>key.
         Some \<lparr>voc_k = 2, voc_L = 1, scoringType = 0, weightingType = 0,
               nodes = [\<lparr>nodeId = 1, parentId = 0, weight = 5 :: int, descriptor = ''7 ''\<rparr>],
               words = [\<lparr>wordId = 0, word_nodeId = 1\<rparr>]\<rparr>))
      ''voc.yml'') = Inr res)"
proof -
  let ?g = "\<lambda>n :: nat. n \<le> 1000"
  let ?fvoc = "\<lparr>voc_k = 2, voc_L = 1, scoringType = 0, weightingType = 0,
               nodes = [\<lparr>nodeId = 1, parentId = 0, weight = 5 :: int, descriptor = ''7 ''\<rparr>],
               words = [\<lparr>wordId = 0, word_nodeId = 1\<rparr>]\<rparr>"
  have "load ?g (\<lambda>name. None :: int FileStorage option) ''voc.yml'' =
     (\<lparr>nodes_read = [], words_read = []\<rparr>, Inl (Thrown ''Could not open file voc.yml''))"
    using load_throws_before_reading [of "\<lambda>name. None :: int FileStorage option" "''voc.yml''" ?g]
    by simp
  moreover have "load ?g (\<lambda>name. Some (\<lambda>key. None :: int VocabularyNode option)) ''voc.yml'' =
     (\<lparr>nodes_read = [], words_read = []\<rparr>,
      Inl (Thrown ''File does not contain 'vocabulary' node''))"
    using load_throws_before_reading
      [of "\<lambda>name. Some (\<lambda>key. None :: int VocabularyNode option)" "''voc.yml''" ?g]
    by simp
  moreover have "\<exists>res. snd (load ?g (\<lambda>name. Some (\<lambda>key. Some ?fvoc)) ''voc.yml'') = Inr res"
    using load_throws_before_reading [of "\<lambda>name. Some (\<lambda>key. Some ?fvoc)" "''voc.yml''" ?g]
    by simp
  ultimately show ?thesis by blast
qed

section \<open>Saving and loading a vocabulary\<close>

lemma those_map_Some:
  "(\<And>x. x \<in> set xs \<Longrightarrow> f x = Some (g x)) \<Longrightarrow> those (map f xs) = Some (map g xs)"
  by (induction xs) simp_all

lemma find_map_list: "find P (map f xs) = map_option f (find (\<lambda>x. P (f x)) xs)"
  by (induction xs) simp_all

lemma toString_ok:
  assumes "length a = L"
  shows "toString L a = Some (concat (map (\<lambda>x. show_int (uint x) @ '' '') a))"
proof -
  have "map (\<lambda>i. show_int (uint (a ! i)) @ '' '') [0..<length a] = map (\<lambda>x. show_int (uint x) @ '' '') a"
    by (rule nth_equalityI) simp_all
  with assms show ?thesis by (simp add: toString_def toString_concat)
qed

lemma fromString_toString:
  assumes "length a = L"
  shows "fromString L (concat (map (\<lambda>x. show_int (uint x) @ '' '') a)) = Some a"
  using read_bytes_roundtrip [of "[]" a] assms by (simp add: fromString_def)

lemma save_load_identity:
  assumes "wf_vocabulary DL V"
  shows "\<exists>fvoc. save DL V = Some fvoc \<and> load_vocabulary DL fvoc = Some V"
proof -
  let ?ns = "v_nodes V" and ?ws = "v_words V"
  let ?str = "\<lambda>d. concat (map (\<lambda>x. show_int (uint x) @ '' '') (d :: TDescriptor))"
  let ?rec = "\<lambda>n. \<lparr>nodeId = n_id n, parentId = n_parent n, weight = n_weight n,
                    descriptor = ?str (n_descriptor n)\<rparr>"
  let ?recs = "map ?rec (tl ?ns)"
  let ?wrecs = "map (\<lambda>w. \<lparr>wordId = of_nat w, word_nodeId = ?ws ! w\<rparr>) [0..<length ?ws]"
  let ?fvoc = "\<lparr>voc_k = v_k V, voc_L = v_L V, scoringType = v_scoring V,
                weightingType = v_weighting V, nodes = ?recs, words = ?wrecs\<rparr>"
  from assms have ne: "?ns \<noteq> []"
    and root: "n_parent (?ns ! 0) = 0" "n_descriptor (?ns ! 0) = []" "n_weight (?ns ! 0) = 0"
    and node: "\<And>i. i < length ?ns \<Longrightarrow> n_id (?ns ! i) = of_nat i \<and>
                    n_children (?ns ! i) =
                      map n_id (filter (\<lambda>n. n_parent n = of_nat i) (tl ?ns)) \<and>
                    n_word_id (?ns ! i) =
                      (case find (\<lambda>w. ?ws ! w = of_nat i) [0..<length ?ws] of
                         None \<Rightarrow> 0 | Some w \<Rightarrow> of_nat w)"
    and len: "\<And>n. n \<in> set (tl ?ns) \<Longrightarrow> length (n_descriptor n) = DL"
    by (simp_all add: wf_vocabulary_def Let_def list_all_iff)
  have ch: "children_of ?recs i = map n_id (filter (\<lambda>n. n_parent n = i) (tl ?ns))" for i
    by (simp add: children_of_def filter_map comp_def)
  have wo: "word_of ?wrecs i =
              (case find (\<lambda>w. ?ws ! w = i) [0..<length ?ws] of None \<Rightarrow> 0 | Some w \<Rightarrow> of_nat w)" for i
    by (simp add: word_of_def find_map_list split: option.splits)
  have "save_node DL n = Some (?rec n)" if "n \<in> set (tl ?ns)" for n
    using len [OF that] by (simp add: save_node_def toString_ok)
  then have "those (map (save_node DL) (tl ?ns)) = Some ?recs"
    by (rule those_map_Some)
  then have sv: "save DL V = Some ?fvoc"
    by (simp add: save_def)
  have "load_node DL ?recs ?wrecs i = Some (?ns ! Suc i)" if "i \<in> set [0..<length ?recs]" for i
  proof -
    from that have i: "i < length (tl ?ns)" by simp
    then have si: "Suc i < length ?ns" by simp
    from i have nth: "tl ?ns ! i = ?ns ! Suc i" by (simp add: nth_tl)
    from i have "?ns ! Suc i \<in> set (tl ?ns)" by (metis nth nth_mem)
    then have l: "length (n_descriptor (?ns ! Suc i)) = DL" by (rule len)
    from i have r: "?recs ! i = ?rec (?ns ! Suc i)" by (simp add: nth)
    show ?thesis
      using node [OF si]
      by (simp add: load_node_def Let_def r fromString_toString [OF l] ch wo del: of_nat_Suc)
  qed
  then have "those (map (load_node DL ?recs ?wrecs) [0..<length ?recs]) =
               Some (map (\<lambda>i. ?ns ! Suc i) [0..<length ?recs])"
    by (rule those_map_Some)
  moreover have "map (\<lambda>i. ?ns ! Suc i) [0..<length ?recs] = tl ?ns"
    by (rule nth_equalityI) (simp_all add: nth_tl)
  ultimately have ln: "those (map (load_node DL ?recs ?wrecs) [0..<length ?recs]) = Some (tl ?ns)"
    by simp
  have "load_word ?wrecs w = Some (?ws ! w)" if "w \<in> set [0..<length ?wrecs]" for w
    using that by (simp add: load_word_def)
  then have "those (map (load_word ?wrecs) [0..<length ?wrecs]) =
               Some (map (\<lambda>w. ?ws ! w) [0..<length ?wrecs])"
    by (rule those_map_Some)
  then have lw: "those (map (load_word ?wrecs) [0..<length ?wrecs]) = Some ?ws"
    by (simp add: map_nth)
  from ne have "0 < length ?ns" by simp
  from node [OF this] root
  have "\<lparr>n_id = 0, n_parent = 0, n_children = children_of ?recs 0,
          n_descriptor = [], n_weight = 0, n_word_id = word_of ?wrecs 0\<rparr> = ?ns ! 0"
    by (simp add: ch wo)
  with ne have "\<lparr>n_id = 0, n_parent = 0, n_children = children_of ?recs 0,
          n_descriptor = [], n_weight = 0, n_word_id = word_of ?wrecs 0\<rparr> # tl ?ns = ?ns"
    by (cases ?ns) simp_all
  with ln lw have "load_vocabulary DL ?fvoc = Some V"
    by (simp add: load_vocabulary_def)
  with sv show ?thesis by blast
qed

text \<open>
  C7: saving a vocabulary and loading the result gives a vocabulary with the same nodes in
  the same order and the same words, hence one that quantizes every descriptor to the same
  word (and weight) as the vocabulary that was saved. The vocabulary is one that \<open>create\<close>
  may have built, in the sense of \<open>wf_vocabulary\<close>.
\<close>

theorem save_load_transform:
  assumes "wf_vocabulary DL V"
  shows "\<exists>fvoc V'. save DL V = Some fvoc \<and> load_vocabulary DL fvoc = Some V' \<and>
           v_nodes V' = v_nodes V \<and> v_words V' = v_words V \<and>
           (\<forall>desc. transform_one DL V' desc = transform_one DL V desc)"
  using save_load_identity [OF assms] by auto

theorem save_load_transform_witness:
  "wf_vocabulary 16
     \<lparr>v_k = 2, v_L = 1, v_scoring = 0, v_weighting = 0,
      v_nodes = [\<lparr>n_id = 0, n_parent = 0, n_children = [1, 2], n_descriptor = [],
                  n_weight = 0 :: int, n_word_id = 0\<rparr>,
                 \<lparr>n_id = 1, n_parent = 0, n_children = [], n_descriptor = replicate 16 0,
                  n_weight = 3, n_word_id = 0\<rparr>,
                 \<lparr>n_id = 2, n_parent = 0, n_children = [], n_descriptor = replicate 16 255,
                  n_weight = 5, n_word_id = 1\<rparr>],
      v_words = [1, 2]\<rparr> \<and>
   (\<exists>fvoc V'.
      save 16
        \<lparr>v_k = 2, v_L = 1, v_scoring = 0, v_weighting = 0,
         v_nodes = [\<lparr>n_id = 0, n_parent = 0, n_children = [1, 2], n_descriptor = [],
                     n_weight = 0 :: int, n_word_id = 0\<rparr>,
                    \<lparr>n_id = 1, n_parent = 0, n_children = [], n_descriptor = replicate 16 0,
                     n_weight = 3, n_word_id = 0\<rparr>,
                    \<lparr>n_id = 2, n_parent = 0, n_children = [], n_descriptor = replicate 16 255,
                     n_weight = 5, n_word_id = 1\<rparr>],
         v_words = [1, 2]\<rparr> = Some fvoc \<and>
      load_vocabulary 16 fvoc = Some V' \<and>
      (\<forall>desc. transform_one 16 V' desc =
         transform_one 16
           \<lparr>v_k = 2, v_L = 1, v_scoring = 0, v_weighting = 0,
            v_nodes = [\<lparr>n_id = 0, n_parent = 0, n_children = [1, 2], n_descriptor = [],
                        n_weight = 0 :: int, n_word_id = 0\<rparr>,
                       \<lparr>n_id = 1, n_parent = 0, n_children = [], n_descriptor = replicate 16 0,
                        n_weight = 3, n_word_id = 0\<rparr>,
                       \<lparr>n_id = 2, n_parent = 0, n_children = [], n_descriptor = replicate 16 255,
                        n_weight = 5, n_word_id = 1\<rparr>],
            v_words = [1, 2]\<rparr> desc))"
proof -
  let ?V = "\<lparr>v_k = 2, v_L = 1, v_scoring = 0, v_weighting = 0,
      v_nodes = [\<lparr>n_id = 0, n_parent = 0, n_children = [1, 2], n_descriptor = [],
                  n_weight = 0 :: int, n_word_id = 0\<rparr>,
                 \<lparr>n_id = 1, n_parent = 0, n_children = [], n_descriptor = replicate 16 0,
                  n_weight = 3, n_word_id = 0\<rparr>,
                 \<lparr>n_id = 2, n_parent = 0, n_children = [], n_descriptor = replicate 16 255,
                  n_weight = 5, n_word_id = 1\<rparr>],
      v_words = [1, 2]\<rparr>"
  have up: "[0..<2] = [0, 1]" "[0..<3] = [0, 1, 2]" by (simp_all add: upt_rec)
  have h: "wf_vocabulary 16 ?V"
    by (simp add: wf_vocabulary_def Let_def up)
  from save_load_transform [OF h] h show ?thesis by blast
qed

end
